theory Spec2Isabelle
  imports Complex_Main "HOL-Library.AList" "HOL-Library.Sublist"
begin

section \<open>The Bitstamp order-book feed: data model\<close>

text \<open>
  The model follows the websocket adapter of the Bitstamp exchange (class \<open>bitstamp\<close>,
  methods \<open>handleOrderBook\<close>, \<open>handleDelta\<close>, \<open>handleBidAsks\<close>, \<open>getCacheIndex\<close>,
  \<open>handleOrderBookSubscription\<close>, \<open>handleSubscriptionStatus\<close>, \<open>handleSubject\<close>,
  \<open>handleErrorMessage\<close>, \<open>handleMessage\<close>) and the ordering assertions of
  \<open>test_order_book\<close>.

  JavaScript numbers that hold nonces and timestamps are modelled as \<open>int\<close> (the
  microsecond timestamps of the feed are far below $2^{53}$), prices and sizes as \<open>rat\<close>.
  A field that a \<open>safeInteger\<close>/\<open>safeString\<close>/\<open>safeValue\<close> accessor reads is an
  \<open>option\<close>: \<open>None\<close> is JavaScript's \<open>undefined\<close>.
\<close>

datatype error = TypeError | AuthenticationError

text \<open>
  One price level as \<open>parseBidAsk\<close> hands it to the book side: \<open>[price, size]\<close>.
\<close>

type_synonym level = "rat \<times> rat"

text \<open>
  A book side (\<open>OrderBookSide\<close>). The class is not part of the sources at hand; the
  side is kept as an association list from price to size, one entry per price.
\<close>

type_synonym side = "level list"

text \<open>
  The \<open>data\<close> object of a feed message. Each field holds what the accessor of the
  source returns for it: \<open>d_timestamp\<close> is \<open>safeTimestamp (delta, 'timestamp')\<close>,
  \<open>d_microtimestamp\<close> is \<open>safeInteger (delta, 'microtimestamp')\<close>, \<open>d_bids\<close> and
  \<open>d_asks\<close> are \<open>safeValue (delta, 'bids', [])\<close> and \<open>safeValue (delta, 'asks', [])\<close>
  with every entry already passed through \<open>parseBidAsk\<close>. A message without \<open>data\<close>
  reads as the delta whose fields are all undefined and whose lists are empty.
\<close>

record delta =
  d_timestamp :: "int option"
  d_microtimestamp :: "int option"
  d_bids :: "level list"
  d_asks :: "level list"

record orderbook =
  bids :: side
  asks :: side
  timestamp :: "int option"
  datetime :: "string option"
  nonce :: "int option"
  cache :: "delta list"

record message =
  event :: "string option"
  channel :: "string option"
  data :: delta
  error_code :: "int option"

text \<open>
  The part of the exchange object and of the websocket client that the order-book
  handlers read and write: \<open>this.orderbooks\<close> (keyed by the symbol that \<open>safeSymbol\<close>
  returns, which may be undefined), the \<open>loadOrderBook\<close> tasks spawned so far and the
  books handed to \<open>client.resolve\<close> so far, both oldest first and tagged with the symbol
  of their message hash.
\<close>

record client_state =
  orderbooks :: "string option \<rightharpoonup> orderbook"
  spawned :: "string option list"
  resolved :: "(string option \<times> orderbook) list"

text \<open>
  What the handlers take from the rest of the exchange object: the configured option
  \<open>options['watchOrderBook']['snapshotDelay']\<close>, the helpers \<open>safeSymbol\<close> and
  \<open>iso8601\<close> of the base class, and the two handlers of the other channels, which
  work on \<open>this.trades\<close> and \<open>this.orders\<close> and either return or throw.
\<close>

record exchange =
  snapshotDelayOption :: "nat option"
  safeSymbol :: "string option \<Rightarrow> string option"
  iso8601 :: "int option \<Rightarrow> string option"
  handleTrade :: "message \<Rightarrow> error option"
  handleOrders :: "message \<Rightarrow> error option"

section \<open>JavaScript primitives\<close>

text \<open>
  \<open>a < b\<close> and \<open>a >= b\<close> on values that are numbers or undefined: a comparison with
  undefined is false.
\<close>

fun js_lt :: "int option \<Rightarrow> int option \<Rightarrow> bool" where
  "js_lt (Some a) (Some b) = (a < b)"
| "js_lt _ _ = False"

fun js_ge :: "int option \<Rightarrow> int option \<Rightarrow> bool" where
  "js_ge (Some a) (Some b) = (a \<ge> b)"
| "js_ge _ _ = False"

text \<open>\<open>s.split (c)\<close> for a one-character separator.\<close>

fun js_split :: "char \<Rightarrow> string \<Rightarrow> string list" where
  "js_split c [] = [[]]"
| "js_split c (x # xs) =
     (if x = c then [] # js_split c xs
      else (case js_split c xs of [] \<Rightarrow> [[x]] | p # ps \<Rightarrow> (x # p) # ps))"

text \<open>\<open>s.indexOf (key)\<close>: the first position where \<open>key\<close> starts, or \<open>-1\<close>.\<close>

fun indexOf_from :: "string \<Rightarrow> string \<Rightarrow> nat \<Rightarrow> int" where
  "indexOf_from [] key i = (if key = [] then int i else -1)"
| "indexOf_from (c # s) key i =
     (if prefix key (c # s) then int i else indexOf_from s key (Suc i))"

definition indexOf :: "string \<Rightarrow> string \<Rightarrow> int" where
  "indexOf s key = indexOf_from s key 0"

text \<open>
  \<open>safeString (parts, i)\<close> on an array of strings: an index past the end reads
  undefined, and so does an empty string.
\<close>

definition safeString_at :: "string list \<Rightarrow> nat \<Rightarrow> string option" where
  "safeString_at parts i =
     (if i < length parts \<and> parts ! i \<noteq> [] then Some (parts ! i) else None)"

text \<open>\<open>handleOption ('watchOrderBook', 'snapshotDelay', 6)\<close>.\<close>

definition snapshotDelay :: "exchange \<Rightarrow> nat" where
  "snapshotDelay ex = (case snapshotDelayOption ex of None \<Rightarrow> 6 | Some n \<Rightarrow> n)"

text \<open>
  The symbol both order-book handlers compute from the channel name:
  \<open>safeSymbol (safeString (channel.split ('_'), 3))\<close>.
\<close>

definition channelSymbol :: "exchange \<Rightarrow> string \<Rightarrow> string option" where
  "channelSymbol ex ch = safeSymbol ex (safeString_at (js_split (CHR ''_'') ch) 3)"

section \<open>The book side and the book\<close>

text \<open>
  Modelled from the spec: \<open>OrderBookSide.storeArray\<close> is not under the sources. The
  spec's \<open>upsert (price, size)\<close> inserts or replaces the level at \<open>price\<close>; a size of
  \<open>0\<close> deletes the entry, and deleting a price that is not there changes nothing.
\<close>

definition storeArray :: "side \<Rightarrow> level \<Rightarrow> side" where
  "storeArray bookSide bidAsk =
     (if snd bidAsk = 0 then AList.delete (fst bidAsk) bookSide
      else AList.update (fst bidAsk) (snd bidAsk) bookSide)"

datatype ordering = Descending | Ascending

text \<open>
  Modelled from the spec: \<open>toSortedArray (limit?)\<close> of a side gives the first \<open>limit\<close>
  entries in the side's order (descending prices for bids, ascending for asks), all of
  them when no limit is given, and leaves the side as it is.
\<close>

definition toSortedArray :: "ordering \<Rightarrow> side \<Rightarrow> nat option \<Rightarrow> level list" where
  "toSortedArray ord bookSide limit =
     (let arr = (case ord of Ascending \<Rightarrow> sort_key fst bookSide
                           | Descending \<Rightarrow> rev (sort_key fst bookSide))
      in case limit of None \<Rightarrow> arr | Some n \<Rightarrow> take n arr)"

text \<open>
  Modelled from the spec: \<open>limitedView (limit?)\<close> is the book a consumer sees, both
  sides sorted and cut to the limit, with the book's timestamp, datetime and nonce.
\<close>

definition limitedView :: "orderbook \<Rightarrow> nat option \<Rightarrow> orderbook" where
  "limitedView ob limit =
     ob\<lparr>bids := toSortedArray Descending (bids ob) limit,
        asks := toSortedArray Ascending (asks ob) limit\<rparr>"

text \<open>
  Modelled from the spec: \<open>this.orderBook ()\<close> of the base class is not under the
  sources. A book is created empty when a market subscription begins: no levels, no
  timestamp, no nonce, nothing buffered.
\<close>

definition orderBook :: orderbook where
  "orderBook = \<lparr>bids = [], asks = [], timestamp = None, datetime = None,
                nonce = None, cache = []\<rparr>"

section \<open>Applying a delta\<close>

text \<open>\<open>handleBidAsks\<close>: the loop over the entries of one side, in the order of the feed.\<close>

fun handleBidAsks :: "side \<Rightarrow> level list \<Rightarrow> side" where
  "handleBidAsks bookSide [] = bookSide"
| "handleBidAsks bookSide (bidAsk # rest) = handleBidAsks (storeArray bookSide bidAsk) rest"

definition handleDelta :: "exchange \<Rightarrow> orderbook \<Rightarrow> delta \<Rightarrow> orderbook" where
  "handleDelta ex ob dl =
     ob\<lparr>timestamp := d_timestamp dl,
        datetime := iso8601 ex (d_timestamp dl),
        nonce := d_microtimestamp dl,
        bids := handleBidAsks (bids ob) (d_bids dl),
        asks := handleBidAsks (asks ob) (d_asks dl)\<rparr>"

text \<open>
  \<open>handleOrderBook\<close>. A message without a channel makes \<open>channel.split\<close> throw; a
  symbol without a stored book reads an undefined nonce and then throws on
  \<open>storedOrderBook.cache\<close>. While the stored nonce is undefined the delta is buffered,
  and \<open>loadOrderBook\<close> is spawned when the buffer, before this delta is pushed, holds
  exactly \<open>snapshotDelay\<close> deltas. Otherwise a delta whose nonce the stored nonce has
  reached is dropped, and any other delta is applied and the book resolved.
\<close>

definition handleOrderBook :: "exchange \<Rightarrow> message \<Rightarrow> client_state \<Rightarrow> error + client_state" where
  "handleOrderBook ex msg st =
     (case channel msg of
        None \<Rightarrow> Inl TypeError
      | Some ch \<Rightarrow>
          let symbol = channelSymbol ex ch;
              storedOrderBook = orderbooks st symbol;
              nonce' = (case storedOrderBook of None \<Rightarrow> None | Some ob \<Rightarrow> nonce ob);
              dl = data msg;
              deltaNonce = d_microtimestamp dl
          in if nonce' = None then
               (case storedOrderBook of
                  None \<Rightarrow> Inl TypeError
                | Some ob \<Rightarrow>
                    let cacheLength = length (cache ob);
                        st1 = (if cacheLength = snapshotDelay ex
                               then st\<lparr>spawned := spawned st @ [symbol]\<rparr> else st)
                    in Inr (st1\<lparr>orderbooks :=
                                (orderbooks st1)(symbol \<mapsto> ob\<lparr>cache := cache ob @ [dl]\<rparr>)\<rparr>))
             else if js_ge nonce' deltaNonce then Inr st
             else
               (case storedOrderBook of
                  None \<Rightarrow> Inl TypeError
                | Some ob \<Rightarrow>
                    let ob' = handleDelta ex ob dl
                    in Inr (st\<lparr>orderbooks := (orderbooks st)(symbol \<mapsto> ob'),
                               resolved := resolved st @ [(symbol, ob')]\<rparr>)))"

text \<open>
  The feed of one connection: the messages of the \<open>diff_order_book\<close> channel are handled
  one after the other, in arrival order; an exception ends the run.
\<close>

fun feedOrderBook :: "exchange \<Rightarrow> message list \<Rightarrow> client_state \<Rightarrow> error + client_state" where
  "feedOrderBook ex [] st = Inr st"
| "feedOrderBook ex (msg # msgs) st =
     (case handleOrderBook ex msg st of
        Inl e \<Rightarrow> Inl e
      | Inr st' \<Rightarrow> feedOrderBook ex msgs st')"

section \<open>Splicing the snapshot into the buffer\<close>

text \<open>
  The loop of \<open>getCacheIndex\<close>, from index \<open>i\<close> on: the index after the first buffered
  delta whose nonce is identical to the snapshot's, or the length of the buffer.
\<close>

fun findNonce :: "int option \<Rightarrow> delta list \<Rightarrow> nat \<Rightarrow> int" where
  "findNonce n [] i = int i"
| "findNonce n (dl # deltas) i =
     (if d_microtimestamp dl = n then int i + 1 else findNonce n deltas (Suc i))"

text \<open>
  \<open>getCacheIndex (orderbook, deltas)\<close>, \<open>orderbook\<close> being the snapshot. On an empty
  buffer \<open>deltas[0]\<close> is undefined, so is its nonce, and the result is \<open>0\<close>.
\<close>

definition getCacheIndex :: "orderbook \<Rightarrow> delta list \<Rightarrow> int" where
  "getCacheIndex snapshot deltas =
     (let firstElementNonce = (case deltas of [] \<Rightarrow> None
                               | firstElement # _ \<Rightarrow> d_microtimestamp firstElement);
          n = nonce snapshot
      in if js_lt n firstElementNonce then - 1 else findNonce n deltas 0)"

text \<open>
  Modelled from the spec: the caller of \<open>getCacheIndex\<close> (\<open>loadOrderBook\<close> of the base
  class) is not under the sources. \<open>reconcile\<close> reads the index as the spec does: \<open>-1\<close>
  is the failure result (the unrecoverable gap), any other index selects the buffered
  deltas from that position on for replay on top of the snapshot.
\<close>

definition reconcile :: "orderbook \<Rightarrow> delta list \<Rightarrow> delta list option" where
  "reconcile snapshot deltas =
     (let index = getCacheIndex snapshot deltas
      in if index < 0 then None else Some (drop (nat index) deltas))"

section \<open>Subscription acknowledgements and dispatch\<close>

definition handleOrderBookSubscription :: "exchange \<Rightarrow> message \<Rightarrow> client_state \<Rightarrow> error + client_state" where
  "handleOrderBookSubscription ex msg st =
     (case channel msg of
        None \<Rightarrow> Inl TypeError
      | Some ch \<Rightarrow>
          Inr (st\<lparr>orderbooks := (orderbooks st)(channelSymbol ex ch \<mapsto> orderBook)\<rparr>))"

definition handleSubscriptionStatus :: "exchange \<Rightarrow> message \<Rightarrow> client_state \<Rightarrow> error + client_state" where
  "handleSubscriptionStatus ex msg st =
     (case channel msg of
        None \<Rightarrow> Inl TypeError
      | Some ch \<Rightarrow>
          if indexOf ch ''order_book'' > - 1 then handleOrderBookSubscription ex msg st
          else Inr st)"

text \<open>
  \<open>handleSubject\<close>: the keys \<open>live_trades\<close>, \<open>diff_order_book\<close>, \<open>private-my_orders\<close>
  are tried in this order and every handler whose key occurs in the channel runs.
\<close>

definition handleSubject :: "exchange \<Rightarrow> message \<Rightarrow> client_state \<Rightarrow> error + client_state" where
  "handleSubject ex msg st =
     (case channel msg of
        None \<Rightarrow> Inl TypeError
      | Some ch \<Rightarrow>
          (case (if indexOf ch ''live_trades'' > - 1 then handleTrade ex msg else None) of
             Some e \<Rightarrow> Inl e
           | None \<Rightarrow>
               (case (if indexOf ch ''diff_order_book'' > - 1 then handleOrderBook ex msg st
                      else Inr st) of
                  Inl e \<Rightarrow> Inl e
                | Inr st' \<Rightarrow>
                    (case (if indexOf ch ''private-my_orders'' > - 1 then handleOrders ex msg
                           else None) of
                       Some e \<Rightarrow> Inl e
                     | None \<Rightarrow> Inr st'))))"

text \<open>
  \<open>handleErrorMessage\<close> throws the exception registered for the code of a \<open>bts:error\<close>
  message (\<open>4009\<close>: \<open>AuthenticationError\<close>) and returns the message otherwise.
\<close>

definition handleErrorMessage :: "message \<Rightarrow> error option" where
  "handleErrorMessage msg =
     (if event msg = Some ''bts:error'' \<and> error_code msg = Some 4009
      then Some AuthenticationError else None)"

definition handleMessage :: "exchange \<Rightarrow> message \<Rightarrow> client_state \<Rightarrow> error + client_state" where
  "handleMessage ex msg st =
     (case handleErrorMessage msg of
        Some e \<Rightarrow> Inl e
      | None \<Rightarrow>
          if event msg = Some ''bts:subscription_succeeded''
          then handleSubscriptionStatus ex msg st
          else handleSubject ex msg st)"

section \<open>The ordering assertions of the order-book test\<close>

text \<open>
  \<open>test_order_book\<close> walks the bids and asserts that each price is greater than the
  next one (\<open>Precise::string_gt\<close>), walks the asks and asserts that each price is less
  than the next one (\<open>Precise::string_lt\<close>), and, when both lists are non-empty, asserts
  that the first bid is below the first ask. Each function is true when no assertion of
  its part fails, no property being skipped; the book the test is given is the view the
  consumer receives.
\<close>

fun bids_compareToNextItem :: "level list \<Rightarrow> bool" where
  "bids_compareToNextItem (current_bid # next_bid # rest) =
     (fst current_bid > fst next_bid \<and> bids_compareToNextItem (next_bid # rest))"
| "bids_compareToNextItem _ = True"

fun asks_compareToNextItem :: "level list \<Rightarrow> bool" where
  "asks_compareToNextItem (current_ask # next_ask # rest) =
     (fst current_ask < fst next_ask \<and> asks_compareToNextItem (next_ask # rest))"
| "asks_compareToNextItem _ = True"

definition spread_check :: "orderbook \<Rightarrow> bool" where
  "spread_check ob =
     (case (bids ob, asks ob) of
        (first_bid # _, first_ask # _) \<Rightarrow> fst first_bid < fst first_ask
      | _ \<Rightarrow> True)"

section \<open>Runs on one market and example values\<close>

text \<open>A message belongs to a market when its channel yields the market's symbol.\<close>

definition onMarket :: "exchange \<Rightarrow> string option \<Rightarrow> message \<Rightarrow> bool" where
  "onMarket ex symbol msg =
     (case channel msg of None \<Rightarrow> False | Some ch \<Rightarrow> channelSymbol ex ch = symbol)"

text \<open>
  Values for the scenarios: the exchange object with the options of \<open>describe\<close> (a
  snapshot delay of 6), whose \<open>safeSymbol\<close> returns the market id, whose date rendering
  is a stand-in that renders nothing and whose other handlers return; a delta that carries
  only a nonce; a feed message of the \<open>btcusd\<close> order-book channel; the book of the
  first scenario; a client that holds one book for \<open>btcusd\<close>.
\<close>

definition bitstamp :: exchange where
  "bitstamp = \<lparr>snapshotDelayOption = Some 6, safeSymbol = (\<lambda>marketId. marketId),
               iso8601 = (\<lambda>t. None), handleTrade = (\<lambda>msg. None),
               handleOrders = (\<lambda>msg. None)\<rparr>"

definition nonceDelta :: "int \<Rightarrow> delta" where
  "nonceDelta k = \<lparr>d_timestamp = None, d_microtimestamp = Some k, d_bids = [], d_asks = []\<rparr>"

definition deltaMessage :: "delta \<Rightarrow> message" where
  "deltaMessage dl = \<lparr>event = Some ''data'', channel = Some ''diff_order_book_btcusd'',
                      data = dl, error_code = None\<rparr>"

definition snapshotBook :: orderbook where
  "snapshotBook = \<lparr>bids = [(100, 2)], asks = [(101, 3)], timestamp = None, datetime = None,
                   nonce = Some 10, cache = []\<rparr>"

definition clientWith :: "orderbook \<Rightarrow> client_state" where
  "clientWith ob = \<lparr>orderbooks = [Some ''btcusd'' \<mapsto> ob], spawned = [], resolved = []\<rparr>"

text \<open>
  The nonces of the books resolved one after the other, seen from the nonce \<open>cur\<close> the
  book had before: each resolve happens on a book whose nonce was defined and had not
  reached the nonce of the delta.
\<close>

fun advancing :: "int option \<Rightarrow> int option list \<Rightarrow> bool" where
  "advancing cur [] = True"
| "advancing cur (x # xs) = (cur \<noteq> None \<and> \<not> js_ge cur x \<and> advancing x xs)"

section \<open>Facts about the primitives\<close>

lemma channelSymbol_btcusd:
  "channelSymbol ex ''diff_order_book_btcusd'' = safeSymbol ex (Some ''btcusd'')"
  by (simp add: channelSymbol_def safeString_at_def)

lemma onMarket_deltaMessage: "onMarket bitstamp (Some ''btcusd'') (deltaMessage dl)"
  by (simp add: onMarket_def deltaMessage_def channelSymbol_btcusd bitstamp_def)

lemma findNonce_ge: "int i \<le> findNonce n ds i"
proof (induction ds arbitrary: i)
  case Nil
  show ?case by simp
next
  case (Cons d ds)
  have "int i \<le> int (Suc i)" by simp
  also have "\<dots> \<le> findNonce n ds (Suc i)" by (rule Cons.IH)
  finally show ?case by simp
qed

lemma findNonce_shift: "findNonce n ds i = int i + findNonce n ds 0"
proof (induction ds arbitrary: i)
  case Nil
  show ?case by simp
next
  case (Cons d ds)
  show ?case using Cons.IH [of "Suc i"] Cons.IH [of "Suc 0"] by simp
qed

lemma findNonce_Cons:
  "findNonce n (d # ds) 0 = (if d_microtimestamp d = n then 1 else 1 + findNonce n ds 0)"
  using findNonce_shift [of n ds "Suc 0"] by simp

lemma filter_all_greater:
  assumes "map d_microtimestamp ds = map Some ns" "\<forall>m\<in>set ns. n < m"
  shows "filter (\<lambda>d. js_lt (Some n) (d_microtimestamp d)) ds = ds"
  using assms
proof (induction ds arbitrary: ns)
  case Nil
  show ?case by simp
next
  case (Cons d ds)
  then obtain m ns' where ns: "ns = m # ns'" by (cases ns) auto
  with Cons.prems have "d_microtimestamp d = Some m" "n < m"
    "map d_microtimestamp ds = map Some ns'" "\<forall>m\<in>set ns'. n < m" by auto
  then show ?case using Cons.IH [of ns'] by simp
qed

lemma drop_findNonce:
  assumes "map d_microtimestamp ds = map Some ns" "sorted_wrt (<) ns"
    "n \<in> set ns \<or> (\<forall>m\<in>set ns. m < n)"
  shows "drop (nat (findNonce (Some n) ds 0)) ds
         = filter (\<lambda>d. js_lt (Some n) (d_microtimestamp d)) ds"
  using assms
proof (induction ds arbitrary: ns)
  case Nil
  show ?case by simp
next
  case (Cons d ds)
  then obtain m ns' where ns: "ns = m # ns'" by (cases ns) auto
  with Cons.prems have d: "d_microtimestamp d = Some m"
    and rest: "map d_microtimestamp ds = map Some ns'"
    and gt: "\<forall>k\<in>set ns'. m < k" and srt: "sorted_wrt (<) ns'" by auto
  show ?case
  proof (cases "m = n")
    case True
    with gt have "\<forall>k\<in>set ns'. n < k" by simp
    from filter_all_greater [OF rest this] True d show ?thesis
      by (simp del: findNonce.simps add: findNonce_Cons)
  next
    case False
    with Cons.prems(3) ns gt have lt: "m < n" by auto
    from Cons.prems(3) ns False lt gt have "n \<in> set ns' \<or> (\<forall>k\<in>set ns'. k < n)" by auto
    from Cons.IH [OF rest srt this]
    have ih: "drop (nat (findNonce (Some n) ds 0)) ds
              = filter (\<lambda>d. js_lt (Some n) (d_microtimestamp d)) ds" .
    have "0 \<le> findNonce (Some n) ds 0" using findNonce_ge [of 0 "Some n" ds] by simp
    then have "nat (1 + findNonce (Some n) ds 0) = Suc (nat (findNonce (Some n) ds 0))"
      by simp
    with ih d False lt show ?thesis
      by (simp del: findNonce.simps add: findNonce_Cons)
  qed
qed

section \<open>Reconciling the buffer with a snapshot\<close>

text \<open>
  C1, as the code has it. \<open>getCacheIndex\<close> looks for the buffered delta whose nonce is
  identical to the snapshot's and selects the deltas after it. For a buffer whose nonces
  are strictly increasing in arrival order, and a snapshot nonce that is the nonce of one
  of the buffered deltas or is greater than all of them, the deltas selected for replay
  are exactly the buffered deltas whose nonce is strictly greater than the snapshot's.
  For the buffered nonces 5, 6, 7 and the snapshot nonce 6 only the delta with nonce 7 is
  replayed.
\<close>

theorem reconcile_replays_newer:
  assumes "nonce snapshot = Some n" "map d_microtimestamp deltas = map Some ns"
    "sorted_wrt (<) ns" "n \<in> set ns \<or> (\<forall>m\<in>set ns. m < n)"
  shows "reconcile snapshot deltas
         = Some (filter (\<lambda>d. js_lt (nonce snapshot) (d_microtimestamp d)) deltas)"
proof -
  have nofail: "\<not> js_lt (Some n) (case deltas of [] \<Rightarrow> None | d # _ \<Rightarrow> d_microtimestamp d)"
  proof (cases deltas)
    case Nil
    then show ?thesis by simp
  next
    case (Cons d ds)
    with assms(2) obtain m ns' where ns: "ns = m # ns'" and d: "d_microtimestamp d = Some m"
      by (cases ns) auto
    from assms(3,4) ns have "m \<le> n" by auto
    with Cons d show ?thesis by simp
  qed
  have "0 \<le> findNonce (Some n) deltas 0" using findNonce_ge [of 0 "Some n" deltas] by simp
  with nofail assms(1) drop_findNonce [OF assms(2,3,4)] show ?thesis
    by (simp add: reconcile_def getCacheIndex_def Let_def)
qed

theorem reconcile_replays_newer_witness:
  "reconcile (orderBook\<lparr>nonce := Some 6\<rparr>) [nonceDelta 5, nonceDelta 6, nonceDelta 7]
   = Some [nonceDelta 7]"
  using reconcile_replays_newer [of "orderBook\<lparr>nonce := Some 6\<rparr>" 6
      "[nonceDelta 5, nonceDelta 6, nonceDelta 7]" "[5, 6, 7]"]
  by (simp add: nonceDelta_def)

text \<open>
  C1 as stated fails. With the buffered nonces 5, 7 and the snapshot nonce 6 (not below
  the first buffered nonce) no buffered nonce is identical to the snapshot's, the index is
  the length of the buffer and nothing is replayed, although the delta with nonce 7 is
  newer than the snapshot. With the buffered nonces 5, 6, 6, 7 and the snapshot nonce 6
  the second delta with nonce 6 is replayed although it is not newer.
\<close>

theorem reconcile_counterexample:
  "js_ge (Some 6) (d_microtimestamp (nonceDelta 5))
   \<and> reconcile (orderBook\<lparr>nonce := Some 6\<rparr>) [nonceDelta 5, nonceDelta 7] = Some []
   \<and> filter (\<lambda>d. js_lt (Some 6) (d_microtimestamp d)) [nonceDelta 5, nonceDelta 7]
       = [nonceDelta 7]
   \<and> reconcile (orderBook\<lparr>nonce := Some 6\<rparr>)
         [nonceDelta 5, nonceDelta 6, nonceDelta 6, nonceDelta 7]
       = Some [nonceDelta 6, nonceDelta 7]
   \<and> filter (\<lambda>d. js_lt (Some 6) (d_microtimestamp d))
         [nonceDelta 5, nonceDelta 6, nonceDelta 6, nonceDelta 7]
       = [nonceDelta 7]"
  by (simp add: reconcile_def getCacheIndex_def nonceDelta_def)

text \<open>
  C2, as the code has it. On a non-empty buffer \<open>getCacheIndex\<close> returns the failure
  result \<open>-1\<close>, and \<open>reconcile\<close> no replay list, exactly when the nonce of the first
  buffered delta is strictly greater than the snapshot nonce. A first nonce of snapshot
  nonce plus 1 is such a case.
\<close>

theorem getCacheIndex_fails_iff:
  assumes "nonce snapshot = Some n" "d_microtimestamp firstElement = Some m"
  shows "(getCacheIndex snapshot (firstElement # deltas) = - 1) = (n < m)
         \<and> (reconcile snapshot (firstElement # deltas) = None) = (n < m)"
proof -
  have "0 \<le> findNonce (Some n) (firstElement # deltas) 0"
    by (rule findNonce_ge [of 0, simplified])
  then show ?thesis
    using assms by (auto simp: reconcile_def getCacheIndex_def Let_def)
qed

theorem getCacheIndex_fails_iff_witness:
  "getCacheIndex (orderBook\<lparr>nonce := Some 10\<rparr>) [nonceDelta 50, nonceDelta 51] = - 1
   \<and> reconcile (orderBook\<lparr>nonce := Some 10\<rparr>) [nonceDelta 50, nonceDelta 51] = None
   \<and> getCacheIndex (orderBook\<lparr>nonce := Some 6\<rparr>) [nonceDelta 5, nonceDelta 6] \<noteq> - 1"
  using getCacheIndex_fails_iff [of "orderBook\<lparr>nonce := Some 10\<rparr>" 10 "nonceDelta 50" 50
      "[nonceDelta 51]"]
    getCacheIndex_fails_iff [of "orderBook\<lparr>nonce := Some 6\<rparr>" 6 "nonceDelta 5" 5
      "[nonceDelta 6]"]
  by (simp add: nonceDelta_def)

text \<open>
  C2 as stated fails: a buffer whose first delta has the nonce 7, against a snapshot with
  the nonce 6, is a first nonce of snapshot nonce plus 1, and the result is the failure
  result, not a replay list.
\<close>

theorem getCacheIndex_counterexample:
  "d_microtimestamp (nonceDelta 7) = Some (6 + 1)
   \<and> getCacheIndex (orderBook\<lparr>nonce := Some 6\<rparr>) [nonceDelta 7] = - 1
   \<and> reconcile (orderBook\<lparr>nonce := Some 6\<rparr>) [nonceDelta 7] = None"
  by (simp add: reconcile_def getCacheIndex_def nonceDelta_def)

section \<open>Deltas on a live book\<close>

text \<open>
  C4. A delta whose nonce is less than or equal to the nonce of the live book of its
  market is dropped: \<open>handleOrderBook\<close> returns normally and the whole state is as
  before, so the book's bids, asks, nonce, timestamp and datetime are unchanged and
  nothing is resolved to the consumers.
\<close>

theorem stale_delta_dropped:
  assumes "onMarket ex symbol msg" "orderbooks st symbol = Some ob"
    "nonce ob = Some n" "d_microtimestamp (data msg) = Some m" "m \<le> n"
  shows "handleOrderBook ex msg st = Inr st"
  using assms
  by (auto simp: handleOrderBook_def onMarket_def Let_def split: option.splits)

theorem stale_delta_dropped_witness:
  "handleOrderBook bitstamp (deltaMessage (nonceDelta 10)) (clientWith snapshotBook)
   = Inr (clientWith snapshotBook)
   \<and> handleOrderBook bitstamp
        (deltaMessage \<lparr>d_timestamp = Some 5, d_microtimestamp = Some 9,
                       d_bids = [(100, 0)], d_asks = [(99, 1)]\<rparr>)
        (clientWith snapshotBook)
     = Inr (clientWith snapshotBook)"
  using stale_delta_dropped [of bitstamp "Some ''btcusd''" "deltaMessage (nonceDelta 10)"
      "clientWith snapshotBook" snapshotBook 10 10]
    stale_delta_dropped [of bitstamp "Some ''btcusd''"
      "deltaMessage \<lparr>d_timestamp = Some 5, d_microtimestamp = Some 9,
                     d_bids = [(100, 0)], d_asks = [(99, 1)]\<rparr>"
      "clientWith snapshotBook" snapshotBook 10 9]
    onMarket_deltaMessage
  by (simp add: clientWith_def snapshotBook_def nonceDelta_def deltaMessage_def)

text \<open>
  C8. The first scenario: on the book with bids \<open>[[100, 2]]\<close>, asks \<open>[[101, 3]]\<close> and
  nonce 10, the delta with nonce 11 and the single bid entry \<open>[100, 0]\<close> is applied; the
  book then has no bids, the asks \<open>[[101, 3]]\<close> and the nonce 11, and it is this book
  that is resolved.
\<close>

theorem scenario_delete_level:
  "handleOrderBook ex
     (deltaMessage \<lparr>d_timestamp = t, d_microtimestamp = Some 11,
                    d_bids = [(100, 0)], d_asks = []\<rparr>)
     \<lparr>orderbooks = [safeSymbol ex (Some ''btcusd'') \<mapsto> snapshotBook],
      spawned = [], resolved = []\<rparr>
   = Inr \<lparr>orderbooks = [safeSymbol ex (Some ''btcusd'') \<mapsto>
             \<lparr>bids = [], asks = [(101, 3)], timestamp = t, datetime = iso8601 ex t,
              nonce = Some 11, cache = []\<rparr>],
          spawned = [],
          resolved = [(safeSymbol ex (Some ''btcusd''),
             \<lparr>bids = [], asks = [(101, 3)], timestamp = t, datetime = iso8601 ex t,
              nonce = Some 11, cache = []\<rparr>)]\<rparr>"
  by (simp add: handleOrderBook_def Let_def channelSymbol_btcusd handleDelta_def
      storeArray_def deltaMessage_def snapshotBook_def)

theorem scenario_delete_level_witness:
  "handleOrderBook bitstamp
     (deltaMessage \<lparr>d_timestamp = None, d_microtimestamp = Some 11,
                    d_bids = [(100, 0)], d_asks = []\<rparr>)
     (clientWith snapshotBook)
   = Inr \<lparr>orderbooks = [Some ''btcusd'' \<mapsto>
             \<lparr>bids = [], asks = [(101, 3)], timestamp = None, datetime = None,
              nonce = Some 11, cache = []\<rparr>],
          spawned = [],
          resolved = [(Some ''btcusd'',
             \<lparr>bids = [], asks = [(101, 3)], timestamp = None, datetime = None,
              nonce = Some 11, cache = []\<rparr>)]\<rparr>"
  using scenario_delete_level [of bitstamp None]
  by (simp add: bitstamp_def clientWith_def)

section \<open>Runs of the feed on one market\<close>

lemma handleOrderBook_buffer:
  assumes "onMarket ex s msg" "orderbooks st s = Some ob" "nonce ob = None"
  shows "handleOrderBook ex msg st =
    Inr (st\<lparr>spawned := spawned st @ (if length (cache ob) = snapshotDelay ex then [s] else []),
            orderbooks := (orderbooks st)(s \<mapsto> ob\<lparr>cache := cache ob @ [data msg]\<rparr>)\<rparr>)"
  using assms
  by (auto simp: handleOrderBook_def onMarket_def Let_def split: option.splits)

lemma handleOrderBook_apply:
  assumes "onMarket ex s msg" "orderbooks st s = Some ob" "nonce ob = Some n"
    "\<not> js_ge (Some n) (d_microtimestamp (data msg))"
  shows "handleOrderBook ex msg st =
    Inr (st\<lparr>orderbooks := (orderbooks st)(s \<mapsto> handleDelta ex ob (data msg)),
            resolved := resolved st @ [(s, handleDelta ex ob (data msg))]\<rparr>)"
  using assms
  by (auto simp: handleOrderBook_def onMarket_def Let_def split: option.splits)

lemma handleOrderBook_drop:
  assumes "onMarket ex s msg" "orderbooks st s = Some ob" "nonce ob = Some n"
    "js_ge (Some n) (d_microtimestamp (data msg))"
  shows "handleOrderBook ex msg st = Inr st"
  using assms
  by (auto simp: handleOrderBook_def onMarket_def Let_def split: option.splits)

lemma feed_buffering:
  assumes "\<forall>msg\<in>set msgs. onMarket ex s msg" "orderbooks st s = Some ob" "nonce ob = None"
  shows "\<exists>st'. feedOrderBook ex msgs st = Inr st'
     \<and> spawned st' = spawned st @
              (if length (cache ob) \<le> snapshotDelay ex
                  \<and> snapshotDelay ex < length (cache ob) + length msgs then [s] else [])
     \<and> orderbooks st' = (orderbooks st)(s \<mapsto> ob\<lparr>cache := cache ob @ map data msgs\<rparr>)
     \<and> resolved st' = resolved st"
  using assms
proof (induction msgs arbitrary: st ob)
  case Nil
  then show ?case by (simp add: map_upd_triv)
next
  case (Cons msg msgs)
  let ?ob1 = "ob\<lparr>cache := cache ob @ [data msg]\<rparr>"
  let ?st1 = "st\<lparr>spawned := spawned st @ (if length (cache ob) = snapshotDelay ex then [s] else []),
            orderbooks := (orderbooks st)(s \<mapsto> ?ob1)\<rparr>"
  from Cons.prems have step: "handleOrderBook ex msg st = Inr ?st1"
    by (simp add: handleOrderBook_buffer)
  have "\<exists>st'. feedOrderBook ex msgs ?st1 = Inr st'
     \<and> spawned st' = spawned ?st1 @
              (if length (cache ?ob1) \<le> snapshotDelay ex
                  \<and> snapshotDelay ex < length (cache ?ob1) + length msgs then [s] else [])
     \<and> orderbooks st' = (orderbooks ?st1)(s \<mapsto> ?ob1\<lparr>cache := cache ?ob1 @ map data msgs\<rparr>)
     \<and> resolved st' = resolved ?st1"
    using Cons.prems by (intro Cons.IH) simp_all
  then obtain st' where f: "feedOrderBook ex msgs ?st1 = Inr st'"
    and sp: "spawned st' = spawned ?st1 @
              (if length (cache ?ob1) \<le> snapshotDelay ex
                  \<and> snapshotDelay ex < length (cache ?ob1) + length msgs then [s] else [])"
    and ob: "orderbooks st' = (orderbooks ?st1)(s \<mapsto> ?ob1\<lparr>cache := cache ?ob1 @ map data msgs\<rparr>)"
    and rs: "resolved st' = resolved ?st1" by blast
  have "feedOrderBook ex (msg # msgs) st = Inr st'" using step f by simp
  moreover have "spawned st' = spawned st @
              (if length (cache ob) \<le> snapshotDelay ex
                  \<and> snapshotDelay ex < length (cache ob) + length (msg # msgs) then [s] else [])"
    using sp by auto
  moreover have "orderbooks st' = (orderbooks st)(s \<mapsto> ob\<lparr>cache := cache ob @ map data (msg # msgs)\<rparr>)"
    using ob by simp
  moreover have "resolved st' = resolved st" using rs by simp
  ultimately show ?case by blast
qed

lemma advancing_bound:
  "advancing (Some c) xs \<Longrightarrow> \<forall>x\<in>set xs. x = None \<or> (\<exists>v. x = Some v \<and> c < v)"
proof (induction xs arbitrary: c)
  case Nil
  show ?case by simp
next
  case (Cons x xs)
  show ?case
  proof (cases x)
    case None
    with Cons.prems have "xs = []" by (cases xs) auto
    with None show ?thesis by simp
  next
    case (Some v)
    with Cons.prems have cv: "c < v" and adv: "advancing (Some v) xs" by auto
    from Cons.IH [OF adv] cv Some show ?thesis by fastforce
  qed
qed

lemma advancing_no_regression:
  "advancing cur xs \<Longrightarrow> sorted_wrt (\<lambda>earlier later. \<not> js_lt later earlier) (cur # xs)"
proof (induction xs arbitrary: cur)
  case Nil
  show ?case by simp
next
  case (Cons x xs)
  then obtain c where c: "cur = Some c" by auto
  from Cons.prems have adv: "advancing x xs" by simp
  from advancing_bound [of c "x # xs"] Cons.prems c
  have "\<forall>y\<in>set (x # xs). \<not> js_lt y cur" by fastforce
  with Cons.IH [OF adv] show ?case by simp
qed

lemma advancing_increasing:
  "advancing (Some c) (map Some ns) \<Longrightarrow> sorted_wrt (<) (c # ns)"
proof (induction ns arbitrary: c)
  case Nil
  show ?case by simp
next
  case (Cons n ns)
  from Cons.prems have adv: "advancing (Some n) (map Some ns)" and cn: "c < n" by auto
  from advancing_bound [OF Cons.prems] have "\<forall>k\<in>set (n # ns). c < k" by auto
  with Cons.IH [OF adv] show ?case by simp
qed

lemma feed_advancing:
  assumes "\<forall>msg\<in>set msgs. onMarket ex s msg" "orderbooks st s = Some ob"
  shows "\<exists>st' new. feedOrderBook ex msgs st = Inr st' \<and> resolved st' = resolved st @ new
           \<and> fst ` set new \<subseteq> {s}
           \<and> set (map (nonce \<circ> snd) new) \<subseteq> (d_microtimestamp \<circ> data) ` set msgs
           \<and> advancing (nonce ob) (map (nonce \<circ> snd) new)"
  using assms
proof (induction msgs arbitrary: st ob)
  case Nil
  then show ?case by simp
next
  case (Cons msg msgs)
  from Cons.prems have on: "onMarket ex s msg" and rest: "\<forall>m\<in>set msgs. onMarket ex s m" by auto
  show ?case
  proof (cases "nonce ob")
    case None
    from feed_buffering [OF Cons.prems(1) Cons.prems(2) None] obtain st' where
      "feedOrderBook ex (msg # msgs) st = Inr st'" "resolved st' = resolved st" by blast
    then have "feedOrderBook ex (msg # msgs) st = Inr st' \<and> resolved st' = resolved st @ []
           \<and> fst ` set [] \<subseteq> {s}
           \<and> set (map (nonce \<circ> snd) []) \<subseteq> (d_microtimestamp \<circ> data) ` set (msg # msgs)
           \<and> advancing (nonce ob) (map (nonce \<circ> snd) [])" by simp
    then show ?thesis by blast
  next
    case (Some n)
    show ?thesis
    proof (cases "js_ge (Some n) (d_microtimestamp (data msg))")
      case True
      from handleOrderBook_drop [OF on Cons.prems(2) Some True]
      have step: "handleOrderBook ex msg st = Inr st" .
      from Cons.IH [OF rest Cons.prems(2)] obtain st' new where
        f: "feedOrderBook ex msgs st = Inr st'" and r: "resolved st' = resolved st @ new"
        and s: "fst ` set new \<subseteq> {s}"
        and m: "set (map (nonce \<circ> snd) new) \<subseteq> (d_microtimestamp \<circ> data) ` set msgs"
        and a: "advancing (nonce ob) (map (nonce \<circ> snd) new)" by blast
      have "feedOrderBook ex (msg # msgs) st = Inr st'" using step f by simp
      moreover have "set (map (nonce \<circ> snd) new)
           \<subseteq> (d_microtimestamp \<circ> data) ` set (msg # msgs)" using m by auto
      ultimately show ?thesis using r s a by blast
    next
      case False
      let ?ob1 = "handleDelta ex ob (data msg)"
      let ?st1 = "st\<lparr>orderbooks := (orderbooks st)(s \<mapsto> ?ob1),
                      resolved := resolved st @ [(s, ?ob1)]\<rparr>"
      from handleOrderBook_apply [OF on Cons.prems(2) Some False]
      have step: "handleOrderBook ex msg st = Inr ?st1" .
      have n1: "nonce ?ob1 = d_microtimestamp (data msg)" by (simp add: handleDelta_def)
      have "orderbooks ?st1 s = Some ?ob1" by simp
      from Cons.IH [OF rest this] obtain st' new where
        f: "feedOrderBook ex msgs ?st1 = Inr st'" and r: "resolved st' = resolved ?st1 @ new"
        and s: "fst ` set new \<subseteq> {s}"
        and m: "set (map (nonce \<circ> snd) new) \<subseteq> (d_microtimestamp \<circ> data) ` set msgs"
        and a: "advancing (nonce ?ob1) (map (nonce \<circ> snd) new)" by blast
      have "feedOrderBook ex (msg # msgs) st = Inr st'" using step f by simp
      moreover have "resolved st' = resolved st @ ((s, ?ob1) # new)" using r by simp
      moreover have "fst ` set ((s, ?ob1) # new) \<subseteq> {s}" using s by simp
      moreover have "set (map (nonce \<circ> snd) ((s, ?ob1) # new))
           \<subseteq> (d_microtimestamp \<circ> data) ` set (msg # msgs)" using m n1 by auto
      moreover have "advancing (nonce ob) (map (nonce \<circ> snd) ((s, ?ob1) # new))"
        using a n1 Some False by simp
      ultimately show ?thesis by blast
    qed
  qed
qed

lemma all_defined: "\<forall>x\<in>set xs. x \<noteq> None \<Longrightarrow> \<exists>ns. xs = map Some ns"
proof (induction xs)
  case Nil
  show ?case by simp
next
  case (Cons x xs)
  then obtain ns v where "xs = map Some ns" "x = Some v" by auto
  then have "x # xs = map Some (v # ns)" by simp
  then show ?case by (rule exI)
qed

text \<open>
  C3. On a market whose book is live (its nonce is defined), whatever deltas the feed
  delivers for it, \<open>handleOrderBook\<close> raises nothing and the nonces of the books it
  resolves, in the order of the resolves, never go down: no later one is smaller than the
  book's nonce before the run or than an earlier one. When every delta carries a nonce,
  every resolved nonce is defined and the sequence is strictly increasing, hence
  non-decreasing.
\<close>

theorem resolved_nonces_monotonic:
  assumes "\<forall>msg\<in>set msgs. onMarket ex symbol msg" "orderbooks st symbol = Some ob"
    "nonce ob = Some n0"
  shows "\<exists>st' new. feedOrderBook ex msgs st = Inr st' \<and> resolved st' = resolved st @ new
           \<and> fst ` set new \<subseteq> {symbol}
           \<and> sorted_wrt (\<lambda>earlier later. \<not> js_lt later earlier)
                (Some n0 # map (nonce \<circ> snd) new)
           \<and> ((\<forall>msg\<in>set msgs. d_microtimestamp (data msg) \<noteq> None) \<longrightarrow>
                (\<exists>ns. map (nonce \<circ> snd) new = map Some ns \<and> sorted_wrt (<) (n0 # ns)))"
proof -
  from feed_advancing [OF assms(1,2)] assms(3) obtain st' new where
    f: "feedOrderBook ex msgs st = Inr st'" and r: "resolved st' = resolved st @ new"
    and s: "fst ` set new \<subseteq> {symbol}"
    and m: "set (map (nonce \<circ> snd) new) \<subseteq> (d_microtimestamp \<circ> data) ` set msgs"
    and a: "advancing (Some n0) (map (nonce \<circ> snd) new)" by auto
  have "\<exists>ns. map (nonce \<circ> snd) new = map Some ns \<and> sorted_wrt (<) (n0 # ns)"
    if "\<forall>msg\<in>set msgs. d_microtimestamp (data msg) \<noteq> None"
  proof -
    from that m have "\<forall>x\<in>set (map (nonce \<circ> snd) new). x \<noteq> None" by fastforce
    from all_defined [OF this] obtain ns where ns: "map (nonce \<circ> snd) new = map Some ns" ..
    with a advancing_increasing [of n0 ns] show ?thesis by auto
  qed
  with f r s advancing_no_regression [OF a] show ?thesis by blast
qed


theorem resolved_nonces_monotonic_witness:
  "\<exists>st'. feedOrderBook bitstamp
        [deltaMessage (nonceDelta 11), deltaMessage (nonceDelta 9), deltaMessage (nonceDelta 12)]
        (clientWith snapshotBook) = Inr st'
     \<and> map (nonce \<circ> snd) (resolved st') = [Some 11, Some 12]
     \<and> (\<exists>ns. map (nonce \<circ> snd) (resolved st') = map Some ns \<and> sorted_wrt (<) (10 # ns))"
proof -
  have ev: "map_sum id (\<lambda>st. map (nonce \<circ> snd) (resolved st))
     (feedOrderBook bitstamp
        [deltaMessage (nonceDelta 11), deltaMessage (nonceDelta 9), deltaMessage (nonceDelta 12)]
        (clientWith snapshotBook)) = Inr [Some 11, Some 12]"
    by (simp add: handleOrderBook_def Let_def channelSymbol_btcusd handleDelta_def
        deltaMessage_def snapshotBook_def clientWith_def bitstamp_def nonceDelta_def)
  have "\<forall>msg\<in>set [deltaMessage (nonceDelta 11), deltaMessage (nonceDelta 9),
           deltaMessage (nonceDelta 12)]. onMarket bitstamp (Some ''btcusd'') msg"
    by (simp add: onMarket_deltaMessage)
  moreover have "orderbooks (clientWith snapshotBook) (Some ''btcusd'') = Some snapshotBook"
    by (simp add: clientWith_def)
  moreover have "nonce snapshotBook = Some 10" by (simp add: snapshotBook_def)
  moreover have "\<forall>msg\<in>set [deltaMessage (nonceDelta 11), deltaMessage (nonceDelta 9),
           deltaMessage (nonceDelta 12)]. d_microtimestamp (data msg) \<noteq> None"
    by (simp add: deltaMessage_def nonceDelta_def)
  moreover have "resolved (clientWith snapshotBook) = []" by (simp add: clientWith_def)
  ultimately obtain st' ns where
    f: "feedOrderBook bitstamp
        [deltaMessage (nonceDelta 11), deltaMessage (nonceDelta 9), deltaMessage (nonceDelta 12)]
        (clientWith snapshotBook) = Inr st'"
    and n: "map (nonce \<circ> snd) (resolved st') = map Some ns" "sorted_wrt (<) (10 # ns)"
    using resolved_nonces_monotonic [of
        "[deltaMessage (nonceDelta 11), deltaMessage (nonceDelta 9), deltaMessage (nonceDelta 12)]"
        bitstamp "Some ''btcusd''" "clientWith snapshotBook" snapshotBook 10]
    by auto
  from ev f have "map (nonce \<circ> snd) (resolved st') = [Some 11, Some 12]" by simp
  with f n show ?thesis by (intro exI [of _ st'] conjI exI [of _ ns])
qed

section \<open>The buffering phase\<close>

text \<open>
  C7, as the code has it. In a buffering phase (the book's nonce undefined, the buffer
  empty at its start) \<open>loadOrderBook\<close> is spawned by the delta that finds
  \<open>snapshotDelay\<close> deltas already buffered, before it is buffered itself: after at most
  \<open>snapshotDelay\<close> deltas no snapshot has been requested, after any greater number
  exactly one has.
\<close>

theorem snapshot_requested_after_delay:
  assumes "\<forall>msg\<in>set msgs. onMarket ex symbol msg" "orderbooks st symbol = Some ob"
    "nonce ob = None" "cache ob = []"
  shows "\<exists>st'. feedOrderBook ex msgs st = Inr st'
     \<and> spawned st' = spawned st @ (if snapshotDelay ex < length msgs then [symbol] else [])
     \<and> orderbooks st' symbol = Some (ob\<lparr>cache := map data msgs\<rparr>)
     \<and> resolved st' = resolved st"
  using feed_buffering [OF assms(1,2,3)] assms(4) by auto

theorem snapshot_requested_after_delay_witness:
  "\<exists>st'. feedOrderBook bitstamp (replicate 7 (deltaMessage (nonceDelta 1))) (clientWith orderBook)
           = Inr st'
     \<and> spawned st' = [Some ''btcusd'']"
proof -
  have "\<forall>msg\<in>set (replicate 7 (deltaMessage (nonceDelta 1))).
          onMarket bitstamp (Some ''btcusd'') msg"
    by (simp add: onMarket_deltaMessage)
  moreover have "orderbooks (clientWith orderBook) (Some ''btcusd'') = Some orderBook"
    by (simp add: clientWith_def)
  moreover have "nonce orderBook = None" and "cache orderBook = []"
    by (simp_all add: orderBook_def)
  ultimately obtain st' where
    "feedOrderBook bitstamp (replicate 7 (deltaMessage (nonceDelta 1))) (clientWith orderBook)
       = Inr st'"
    "spawned st' = spawned (clientWith orderBook) @
       (if snapshotDelay bitstamp < length (replicate 7 (deltaMessage (nonceDelta 1)))
        then [Some ''btcusd''] else [])"
    using snapshot_requested_after_delay [of "replicate 7 (deltaMessage (nonceDelta 1))"
        bitstamp "Some ''btcusd''" "clientWith orderBook" orderBook] by blast
  then show ?thesis
    by (intro exI [of _ st']) (simp add: clientWith_def snapshotDelay_def bitstamp_def)
qed

text \<open>
  C7 as stated fails: with the default delay of 6, the sixth delta brings the number of
  buffered deltas to 6 and no snapshot has been requested.
\<close>

theorem snapshot_delay_counterexample:
  "(case feedOrderBook bitstamp (replicate 6 (deltaMessage (nonceDelta 1))) (clientWith orderBook) of
      Inl e \<Rightarrow> False
    | Inr st' \<Rightarrow> spawned st' = [] \<and> snapshotDelay bitstamp = 6
        \<and> (case orderbooks st' (Some ''btcusd'') of None \<Rightarrow> False
            | Some ob \<Rightarrow> length (cache ob) = 6))"
proof -
  have "\<forall>msg\<in>set (replicate 6 (deltaMessage (nonceDelta 1))). onMarket bitstamp (Some ''btcusd'') msg"
    by (simp add: onMarket_deltaMessage)
  moreover have "orderbooks (clientWith orderBook) (Some ''btcusd'') = Some orderBook"
    by (simp add: clientWith_def)
  moreover have "nonce orderBook = None" by (simp add: orderBook_def)
  ultimately obtain st' where
    "feedOrderBook bitstamp (replicate 6 (deltaMessage (nonceDelta 1))) (clientWith orderBook) = Inr st'"
    "spawned st' = spawned (clientWith orderBook) @
              (if length (cache orderBook) \<le> snapshotDelay bitstamp
                  \<and> snapshotDelay bitstamp < length (cache orderBook)
                       + length (replicate 6 (deltaMessage (nonceDelta 1)))
               then [Some ''btcusd''] else [])"
    "orderbooks st' = (orderbooks (clientWith orderBook))(Some ''btcusd'' \<mapsto>
        orderBook\<lparr>cache := cache orderBook @ map data (replicate 6 (deltaMessage (nonceDelta 1)))\<rparr>)"
    using feed_buffering [of "replicate 6 (deltaMessage (nonceDelta 1))" bitstamp "Some ''btcusd''"
        "clientWith orderBook" orderBook] by blast
  then show ?thesis
    by (simp add: clientWith_def orderBook_def snapshotDelay_def bitstamp_def)
qed

text \<open>
  C9, as the code has it. While the book's nonce is undefined every delta of the market is
  appended to the buffer and nothing is raised: after any number of deltas the buffer is
  longer by that number.
\<close>

theorem buffer_grows_unbounded:
  assumes "\<forall>msg\<in>set msgs. onMarket ex symbol msg" "orderbooks st symbol = Some ob"
    "nonce ob = None"
  shows "\<exists>st' ob'. feedOrderBook ex msgs st = Inr st' \<and> orderbooks st' symbol = Some ob'
     \<and> nonce ob' = None \<and> cache ob' = cache ob @ map data msgs
     \<and> length (cache ob') = length (cache ob) + length msgs"
  using feed_buffering [OF assms] assms(3) by auto

theorem buffer_grows_unbounded_witness:
  "\<exists>st' ob'. feedOrderBook bitstamp (replicate 5000 (deltaMessage (nonceDelta 1)))
                 (clientWith orderBook) = Inr st'
     \<and> orderbooks st' (Some ''btcusd'') = Some ob' \<and> length (cache ob') = 5000"
proof -
  have "\<forall>msg\<in>set (replicate 5000 (deltaMessage (nonceDelta 1))).
          onMarket bitstamp (Some ''btcusd'') msg"
    by (simp add: onMarket_deltaMessage)
  moreover have "orderbooks (clientWith orderBook) (Some ''btcusd'') = Some orderBook"
    by (simp add: clientWith_def)
  moreover have "nonce orderBook = None" by (simp add: orderBook_def)
  ultimately obtain st' ob' where
    "feedOrderBook bitstamp (replicate 5000 (deltaMessage (nonceDelta 1))) (clientWith orderBook)
       = Inr st'"
    "orderbooks st' (Some ''btcusd'') = Some ob'"
    "length (cache ob') = length (cache orderBook)
       + length (replicate 5000 (deltaMessage (nonceDelta 1)))"
    using buffer_grows_unbounded [of "replicate 5000 (deltaMessage (nonceDelta 1))"
        bitstamp "Some ''btcusd''" "clientWith orderBook" orderBook] by blast
  then show ?thesis
    by (intro exI [of _ st'] exI [of _ ob']) (simp add: orderBook_def)
qed

text \<open>
  C9 as stated fails: no cap bounds the buffer. For every candidate cap, one delta more
  than the cap is buffered without any error.
\<close>

theorem buffer_cap_counterexample:
  "\<not> (\<exists>cap. \<forall>deltas.
        (case feedOrderBook bitstamp (map deltaMessage deltas) (clientWith orderBook) of
           Inl e \<Rightarrow> True
         | Inr st' \<Rightarrow> (case orderbooks st' (Some ''btcusd'') of None \<Rightarrow> True
                       | Some ob \<Rightarrow> length (cache ob) \<le> cap)))"
proof
  assume "\<exists>cap. \<forall>deltas.
        (case feedOrderBook bitstamp (map deltaMessage deltas) (clientWith orderBook) of
           Inl e \<Rightarrow> True
         | Inr st' \<Rightarrow> (case orderbooks st' (Some ''btcusd'') of None \<Rightarrow> True
                       | Some ob \<Rightarrow> length (cache ob) \<le> cap))"
  then obtain cap where cap: "\<And>deltas.
        (case feedOrderBook bitstamp (map deltaMessage deltas) (clientWith orderBook) of
           Inl e \<Rightarrow> True
         | Inr st' \<Rightarrow> (case orderbooks st' (Some ''btcusd'') of None \<Rightarrow> True
                       | Some ob \<Rightarrow> length (cache ob) \<le> cap))" by blast
  let ?deltas = "replicate (Suc cap) (nonceDelta 1)"
  have "\<forall>msg\<in>set (map deltaMessage ?deltas). onMarket bitstamp (Some ''btcusd'') msg"
    by (simp add: onMarket_deltaMessage)
  moreover have "orderbooks (clientWith orderBook) (Some ''btcusd'') = Some orderBook"
    by (simp add: clientWith_def)
  moreover have "nonce orderBook = None" by (simp add: orderBook_def)
  ultimately obtain st' where
    "feedOrderBook bitstamp (map deltaMessage ?deltas) (clientWith orderBook) = Inr st'"
    "orderbooks st' = (orderbooks (clientWith orderBook))(Some ''btcusd'' \<mapsto>
        orderBook\<lparr>cache := cache orderBook @ map data (map deltaMessage ?deltas)\<rparr>)"
    using feed_buffering [of "map deltaMessage ?deltas" bitstamp "Some ''btcusd''"
        "clientWith orderBook" orderBook] by blast
  with cap [of ?deltas] show False by simp
qed

section \<open>The sorted views of a book side\<close>

lemma distinct_storeArray:
  "distinct (map fst bookSide) \<Longrightarrow> distinct (map fst (storeArray bookSide bidAsk))"
  by (simp add: storeArray_def distinct_update distinct_delete)

lemma distinct_handleBidAsks:
  "distinct (map fst bookSide) \<Longrightarrow> distinct (map fst (handleBidAsks bookSide bidAsks))"
  by (induction bidAsks arbitrary: bookSide) (simp_all add: distinct_storeArray)

lemma strict_sort_key:
  assumes "distinct (map fst (bookSide :: side))"
  shows "sorted_wrt (<) (map fst (sort_key fst bookSide))"
proof -
  from assms have "distinct (map fst (sort_key fst bookSide))"
    by (simp add: distinct_map)
  moreover have "sorted (map fst (sort_key fst bookSide))" by simp
  ultimately show ?thesis by (simp add: strict_sorted_iff)
qed

lemma sorted_wrt_map_take:
  "sorted_wrt P (map f xs) \<Longrightarrow> sorted_wrt P (map f (take n xs))"
  using sorted_wrt_take [of P "map f xs" n] by (simp add: take_map)

lemma toSortedArray_ascending:
  assumes "distinct (map fst (bookSide :: side))"
  shows "sorted_wrt (<) (map fst (toSortedArray Ascending bookSide limit))"
  using strict_sort_key [OF assms]
  by (cases limit) (simp_all add: toSortedArray_def sorted_wrt_map_take)

lemma toSortedArray_descending:
  assumes "distinct (map fst (bookSide :: side))"
  shows "sorted_wrt (>) (map fst (toSortedArray Descending bookSide limit))"
proof -
  from strict_sort_key [OF assms]
  have "sorted_wrt (>) (rev (map fst (sort_key fst bookSide)))"
    by (simp add: sorted_wrt_rev)
  then have "sorted_wrt (>) (map fst (rev (sort_key fst bookSide)))"
    by (simp add: rev_map)
  then show ?thesis
    by (cases limit) (simp_all add: toSortedArray_def sorted_wrt_map_take)
qed

lemma bids_compareToNextItem_iff:
  "bids_compareToNextItem xs \<longleftrightarrow> sorted_wrt (>) (map fst xs)"
  by (induction xs rule: bids_compareToNextItem.induct) auto

lemma asks_compareToNextItem_iff:
  "asks_compareToNextItem xs \<longleftrightarrow> sorted_wrt (<) (map fst xs)"
  by (induction xs rule: asks_compareToNextItem.induct) auto

text \<open>
  C5. Whatever entries are stored into an empty side, in whatever order, the sorted view
  of the side as bids is strictly descending by price and the sorted view as asks is
  strictly ascending by price, with or without a limit; no price occurs twice in either
  view, and the assertions that \<open>test_order_book\<close> makes on neighbouring bids and on
  neighbouring asks hold.
\<close>

theorem sorted_views:
  "sorted_wrt (>) (map fst (toSortedArray Descending (handleBidAsks [] upserts) limit))
   \<and> sorted_wrt (<) (map fst (toSortedArray Ascending (handleBidAsks [] upserts) limit))
   \<and> distinct (map fst (toSortedArray Descending (handleBidAsks [] upserts) limit))
   \<and> distinct (map fst (toSortedArray Ascending (handleBidAsks [] upserts) limit))
   \<and> bids_compareToNextItem (toSortedArray Descending (handleBidAsks [] upserts) limit)
   \<and> asks_compareToNextItem (toSortedArray Ascending (handleBidAsks [] upserts) limit)"
proof -
  have d: "distinct (map fst (handleBidAsks [] upserts))"
    by (rule distinct_handleBidAsks) simp
  note desc = toSortedArray_descending [OF d, of limit]
  note asc = toSortedArray_ascending [OF d, of limit]
  from asc have "distinct (map fst (toSortedArray Ascending (handleBidAsks [] upserts) limit))"
    by (simp add: strict_sorted_iff)
  moreover have "distinct (map fst (toSortedArray Descending (handleBidAsks [] upserts) limit))"
    using desc sorted_wrt_rev [of "(<)" "map fst (toSortedArray Descending (handleBidAsks [] upserts) limit)"]
    by (simp add: strict_sorted_iff)
  ultimately show ?thesis using desc asc
    by (simp add: bids_compareToNextItem_iff asks_compareToNextItem_iff)
qed


theorem sorted_views_witness:
  "sorted_wrt (>) (map fst (toSortedArray Descending
      (handleBidAsks [] [(100, 2), (102, 1), (101, 5), (100, 0), (99, 3), (102, 4)]) (Some 2)))
   \<and> toSortedArray Descending
      (handleBidAsks [] [(100, 2), (102, 1), (101, 5), (100, 0), (99, 3), (102, 4)]) (Some 2)
     = [(102, 4), (101, 5)]
   \<and> toSortedArray Ascending
      (handleBidAsks [] [(100, 2), (102, 1), (101, 5), (100, 0), (99, 3), (102, 4)]) None
     = [(99, 3), (101, 5), (102, 4)]"
  using sorted_views [of "[(100, 2), (102, 1), (101, 5), (100, 0), (99, 3), (102, 4)]" "Some 2"]
  by (simp add: toSortedArray_def storeArray_def)

section \<open>Crossed books\<close>

text \<open>
  C6, as the code has it. A delta that is newer than the live book of its market is
  applied without any check of the best bid against the best ask: \<open>handleOrderBook\<close>
  returns normally, each side of the book is the side before with the entries of the
  delta stored in their order, whether or not the book is crossed afterwards, and this
  book is resolved. Nothing is corrected.
\<close>

theorem delta_applied_unchecked:
  assumes "onMarket ex symbol msg" "orderbooks st symbol = Some ob" "nonce ob = Some n"
    "d_microtimestamp (data msg) = Some m" "n < m"
  shows "handleOrderBook ex msg st
         = Inr (st\<lparr>orderbooks := (orderbooks st)(symbol \<mapsto> handleDelta ex ob (data msg)),
                  resolved := resolved st @ [(symbol, handleDelta ex ob (data msg))]\<rparr>)
     \<and> bids (handleDelta ex ob (data msg)) = handleBidAsks (bids ob) (d_bids (data msg))
     \<and> asks (handleDelta ex ob (data msg)) = handleBidAsks (asks ob) (d_asks (data msg))"
  using assms handleOrderBook_apply [of ex symbol msg st ob n]
  by (simp add: handleDelta_def)

theorem delta_applied_unchecked_witness:
  "handleOrderBook bitstamp
     (deltaMessage \<lparr>d_timestamp = None, d_microtimestamp = Some 11,
                    d_bids = [(102, 1)], d_asks = []\<rparr>)
     (clientWith snapshotBook)
   = Inr \<lparr>orderbooks = [Some ''btcusd'' \<mapsto>
             \<lparr>bids = [(100, 2), (102, 1)], asks = [(101, 3)], timestamp = None,
              datetime = None, nonce = Some 11, cache = []\<rparr>],
          spawned = [],
          resolved = [(Some ''btcusd'',
             \<lparr>bids = [(100, 2), (102, 1)], asks = [(101, 3)], timestamp = None,
              datetime = None, nonce = Some 11, cache = []\<rparr>)]\<rparr>"
  using delta_applied_unchecked [of bitstamp "Some ''btcusd''"
      "deltaMessage \<lparr>d_timestamp = None, d_microtimestamp = Some 11,
                     d_bids = [(102, 1)], d_asks = []\<rparr>"
      "clientWith snapshotBook" snapshotBook 10 11]
    onMarket_deltaMessage
  by (simp add: clientWith_def snapshotBook_def deltaMessage_def handleDelta_def
      storeArray_def bitstamp_def)

text \<open>
  C6 as stated fails: on the book with bids \<open>[[100, 2]]\<close> and asks \<open>[[101, 3]]\<close> the delta
  with the bid \<open>[102, 1]\<close> leaves the best bid 102 above the best ask 101; no error is
  raised, the crossed book is resolved, and the spread assertion of \<open>test_order_book\<close>
  fails on its view.
\<close>

theorem crossed_book_counterexample:
  "handleOrderBook bitstamp
     (deltaMessage \<lparr>d_timestamp = None, d_microtimestamp = Some 11,
                    d_bids = [(102, 1)], d_asks = []\<rparr>)
     (clientWith snapshotBook)
   = Inr \<lparr>orderbooks = [Some ''btcusd'' \<mapsto>
             \<lparr>bids = [(100, 2), (102, 1)], asks = [(101, 3)], timestamp = None,
              datetime = None, nonce = Some 11, cache = []\<rparr>],
          spawned = [],
          resolved = [(Some ''btcusd'',
             \<lparr>bids = [(100, 2), (102, 1)], asks = [(101, 3)], timestamp = None,
              datetime = None, nonce = Some 11, cache = []\<rparr>)]\<rparr>
   \<and> bids (limitedView \<lparr>bids = [(100, 2), (102, 1)], asks = [(101, 3)], timestamp = None,
              datetime = None, nonce = Some 11, cache = []\<rparr> None) = [(102, 1), (100, 2)]
   \<and> asks (limitedView \<lparr>bids = [(100, 2), (102, 1)], asks = [(101, 3)], timestamp = None,
              datetime = None, nonce = Some 11, cache = []\<rparr> None) = [(101, 3)]
   \<and> \<not> spread_check (limitedView \<lparr>bids = [(100, 2), (102, 1)], asks = [(101, 3)],
              timestamp = None, datetime = None, nonce = Some 11, cache = []\<rparr> None)"
  by (simp add: handleOrderBook_def Let_def channelSymbol_btcusd handleDelta_def
      storeArray_def deltaMessage_def snapshotBook_def clientWith_def bitstamp_def
      limitedView_def toSortedArray_def spread_check_def)

section \<open>Subscription acknowledgements\<close>

text \<open>
  C10. A message with the event \<open>bts:subscription_succeeded\<close> whose channel contains
  \<open>order_book\<close> replaces the stored book of the channel's market with a fresh book: no
  bids, no asks, no nonce, nothing buffered; whatever the book held before is gone. The
  next delta of that market is buffered in the fresh book and nothing is resolved.
\<close>

theorem subscription_resets_book:
  assumes "event msg = Some ''bts:subscription_succeeded''" "channel msg = Some ch"
    "indexOf ch ''order_book'' > - 1"
  shows "handleMessage ex msg st
         = Inr (st\<lparr>orderbooks := (orderbooks st)(channelSymbol ex ch \<mapsto> orderBook)\<rparr>)
     \<and> bids orderBook = [] \<and> asks orderBook = [] \<and> nonce orderBook = None
     \<and> cache orderBook = []
     \<and> (\<forall>dmsg. onMarket ex (channelSymbol ex ch) dmsg \<longrightarrow>
          (\<exists>st'. handleOrderBook ex dmsg
                    (st\<lparr>orderbooks := (orderbooks st)(channelSymbol ex ch \<mapsto> orderBook)\<rparr>)
                  = Inr st'
             \<and> orderbooks st' (channelSymbol ex ch) = Some (orderBook\<lparr>cache := [data dmsg]\<rparr>)
             \<and> resolved st' = resolved st))"
proof -
  have "handleErrorMessage msg = None" using assms(1) by (simp add: handleErrorMessage_def)
  with assms have h: "handleMessage ex msg st
         = Inr (st\<lparr>orderbooks := (orderbooks st)(channelSymbol ex ch \<mapsto> orderBook)\<rparr>)"
    by (simp add: handleMessage_def handleSubscriptionStatus_def handleOrderBookSubscription_def)
  have n: "nonce orderBook = None" by (simp add: orderBook_def)
  have "\<exists>st'. handleOrderBook ex dmsg
                    (st\<lparr>orderbooks := (orderbooks st)(channelSymbol ex ch \<mapsto> orderBook)\<rparr>)
                  = Inr st'
             \<and> orderbooks st' (channelSymbol ex ch) = Some (orderBook\<lparr>cache := [data dmsg]\<rparr>)
             \<and> resolved st' = resolved st"
    if "onMarket ex (channelSymbol ex ch) dmsg" for dmsg
    using handleOrderBook_buffer [OF that, of
        "st\<lparr>orderbooks := (orderbooks st)(channelSymbol ex ch \<mapsto> orderBook)\<rparr>" orderBook] n
    by (simp add: orderBook_def)
  with h show ?thesis by (simp add: orderBook_def)
qed

theorem subscription_resets_book_witness:
  "handleMessage bitstamp
     \<lparr>event = Some ''bts:subscription_succeeded'', channel = Some ''diff_order_book_btcusd'',
      data = \<lparr>d_timestamp = None, d_microtimestamp = None, d_bids = [], d_asks = []\<rparr>,
      error_code = None\<rparr>
     (clientWith (snapshotBook\<lparr>cache := [nonceDelta 9]\<rparr>))
   = Inr (clientWith orderBook)
   \<and> (\<exists>st'. handleOrderBook bitstamp (deltaMessage (nonceDelta 11)) (clientWith orderBook)
             = Inr st'
        \<and> orderbooks st' (Some ''btcusd'') = Some (orderBook\<lparr>cache := [nonceDelta 11]\<rparr>)
        \<and> resolved st' = [])"
proof -
  let ?ack = "\<lparr>event = Some ''bts:subscription_succeeded'',
      channel = Some ''diff_order_book_btcusd'',
      data = \<lparr>d_timestamp = None, d_microtimestamp = None, d_bids = [], d_asks = []\<rparr>,
      error_code = None\<rparr>"
  have i: "indexOf ''diff_order_book_btcusd'' ''order_book'' > - 1"
    by (simp add: indexOf_def)
  have s: "channelSymbol bitstamp ''diff_order_book_btcusd'' = Some ''btcusd''"
    by (simp add: channelSymbol_btcusd bitstamp_def)
  have u: "(clientWith (snapshotBook\<lparr>cache := [nonceDelta 9]\<rparr>))
             \<lparr>orderbooks := (orderbooks (clientWith (snapshotBook\<lparr>cache := [nonceDelta 9]\<rparr>)))
                (Some ''btcusd'' \<mapsto> orderBook)\<rparr> = clientWith orderBook"
    by (simp add: clientWith_def)
  have d: "data (deltaMessage (nonceDelta 11)) = nonceDelta 11" by (simp add: deltaMessage_def)
  from subscription_resets_book [of ?ack "''diff_order_book_btcusd''" bitstamp
      "clientWith (snapshotBook\<lparr>cache := [nonceDelta 9]\<rparr>)"] i
  have a: "handleMessage bitstamp ?ack (clientWith (snapshotBook\<lparr>cache := [nonceDelta 9]\<rparr>))
           = Inr (clientWith orderBook)"
    and b: "\<forall>dmsg. onMarket bitstamp (Some ''btcusd'') dmsg \<longrightarrow>
          (\<exists>st'. handleOrderBook bitstamp dmsg (clientWith orderBook) = Inr st'
             \<and> orderbooks st' (Some ''btcusd'') = Some (orderBook\<lparr>cache := [data dmsg]\<rparr>)
             \<and> resolved st' = resolved (clientWith (snapshotBook\<lparr>cache := [nonceDelta 9]\<rparr>)))"
    by (simp_all add: s u)
  from b onMarket_deltaMessage [of "nonceDelta 11"]
  have "\<exists>st'. handleOrderBook bitstamp (deltaMessage (nonceDelta 11)) (clientWith orderBook)
             = Inr st'
        \<and> orderbooks st' (Some ''btcusd'')
            = Some (orderBook\<lparr>cache := [data (deltaMessage (nonceDelta 11))]\<rparr>)
        \<and> resolved st' = resolved (clientWith (snapshotBook\<lparr>cache := [nonceDelta 9]\<rparr>))"
    by blast
  with a show ?thesis by (simp add: d clientWith_def)
qed

end
